theory Spec2Isabelle
  imports Complex_Main "HOL-Library.Sublist"
begin

section \<open>Vid-to-Thumb: frame resolution, name templates, path de-duplication\<close>

text \<open>
  A shallow embedding of \<^verbatim>\<open>Vid-to-Thumb.py\<close>.  Python strings are modelled as
  \<^typ>\<open>string\<close>, a \<^typ>\<open>char\<close> being read as the Unicode code point of the same number
  (0 to 255), so the character classes below are Python's, restricted to that range.
  Exceptions are values of \<open>py_error\<close> on the left of a sum, and what the program prints
  is a list of \<open>message\<close> values returned beside the result.
\<close>

subsection \<open>Python's built-ins used by the program\<close>

datatype py_error = ValueError | IndexError | OverflowError | ReError | OtherError

definition code_point :: "char \<Rightarrow> nat" where
  "code_point c = of_char c"

text \<open>\<^verbatim>\<open>str.isdecimal\<close> on one character: the digits 0 to 9.\<close>

definition char_isdecimal :: "char \<Rightarrow> bool" where
  "char_isdecimal c = (48 \<le> code_point c \<and> code_point c \<le> 57)"

text \<open>\<^verbatim>\<open>str.isdigit\<close> on one character: the decimal digits and the superscripts
  two, three and one (U+00B2, U+00B3, U+00B9).\<close>

definition char_isdigit :: "char \<Rightarrow> bool" where
  "char_isdigit c =
     (char_isdecimal c \<or> code_point c = 178 \<or> code_point c = 179 \<or> code_point c = 185)"

text \<open>\<^verbatim>\<open>str.isalpha\<close> on one character.\<close>

definition char_isalpha :: "char \<Rightarrow> bool" where
  "char_isalpha c =
     (let n = code_point c in
        (65 \<le> n \<and> n \<le> 90) \<or> (97 \<le> n \<and> n \<le> 122) \<or> n = 170 \<or> n = 181 \<or> n = 186 \<or>
        (192 \<le> n \<and> n \<le> 214) \<or> (216 \<le> n \<and> n \<le> 246) \<or> (248 \<le> n \<and> n \<le> 255))"

text \<open>The class \<^verbatim>\<open>\w\<close> of \<^verbatim>\<open>re\<close> on a \<^verbatim>\<open>str\<close> pattern: alphanumeric
  (alphabetic, decimal, digit or numeric, the last adding the fractions U+00BC to U+00BE)
  or the underscore.\<close>

definition word_char :: "char \<Rightarrow> bool" where
  "word_char c =
     (char_isalpha c \<or> char_isdigit c \<or> (188 \<le> code_point c \<and> code_point c \<le> 190)
      \<or> c = CHR ''_'')"

text \<open>\<^verbatim>\<open>s.isdigit()\<close>: false on the empty string.\<close>

definition str_isdigit :: "string \<Rightarrow> bool" where
  "str_isdigit s = (s \<noteq> [] \<and> list_all char_isdigit s)"

definition digit_value :: "char \<Rightarrow> nat" where
  "digit_value c = code_point c - 48"

definition decimal_value :: "string \<Rightarrow> nat" where
  "decimal_value s = foldl (\<lambda>acc c. 10 * acc + digit_value c) 0 s"

text \<open>
  \<^verbatim>\<open>int(s)\<close>.  Every call of the program passes a string of \<^verbatim>\<open>isdigit\<close> characters
  (possibly empty), so the sign, blanks and underscores that \<^verbatim>\<open>int\<close> also reads are left
  out: the empty string and a superscript digit raise \<^verbatim>\<open>ValueError\<close>.  Integers are
  unbounded (the limit on the length of the string, of later Python versions, is not
  modelled).
\<close>

definition py_int :: "string \<Rightarrow> py_error + int" where
  "py_int s =
     (if s \<noteq> [] \<and> list_all char_isdecimal s then Inr (int (decimal_value s))
      else Inl ValueError)"

text \<open>
  \<^verbatim>\<open>int(x)\<close> on a float truncates towards zero.  Floats are modelled as rationals:
  products are exact, and the infinities and NaN do not exist.  The rounding of a product
  to the nearest double, and the product too large for a double (an infinity, on which
  \<^verbatim>\<open>int\<close> raises), are therefore not modelled.
\<close>

definition int_of_float :: "rat \<Rightarrow> int" where
  "int_of_float x = (if 0 \<le> x then \<lfloor>x\<rfloor> else \<lceil>x\<rceil>)"

subsection \<open>Frame resolution\<close>

text \<open>The \<^verbatim>\<open>-n\<close> argument after the conversion of \<^verbatim>\<open>argparse\<close>: an \<^verbatim>\<open>int\<close> or a
  \<^verbatim>\<open>str\<close>.\<close>

datatype frame_option = IntOpt int | StrOpt string

text \<open>What \<^verbatim>\<open>calculate_frame_number\<close> reads from the capture:
  \<^verbatim>\<open>int(cap.get(CAP_PROP_FRAME_COUNT))\<close> and \<^verbatim>\<open>cap.get(CAP_PROP_FPS)\<close>.\<close>

record capture =
  cap_frame_count :: int
  cap_fps :: rat

datatype message =
    InvalidTimeFormat string
  | InvalidFrameOption string
  | PatternError py_error
  | CannotOpen string
  | FpsWarning
  | CannotReadFrame string int
  | Saved string
  | ErrorOccurred py_error

record parts =
  hours :: int
  minutes :: int
  seconds :: int

definition is_unit :: "char \<Rightarrow> bool" where
  "is_unit c = (c = CHR ''h'' \<or> c = CHR ''m'' \<or> c = CHR ''s'')"

text \<open>\<^verbatim>\<open>parts[units[char]] = v\<close>\<close>

definition set_unit :: "char \<Rightarrow> int \<Rightarrow> parts \<Rightarrow> parts" where
  "set_unit c v p =
     (if c = CHR ''h'' then p\<lparr>hours := v\<rparr>
      else if c = CHR ''m'' then p\<lparr>minutes := v\<rparr>
      else p\<lparr>seconds := v\<rparr>)"

text \<open>The loop of \<^verbatim>\<open>parse_time\<close> over the characters; the state is \<^verbatim>\<open>parts\<close> and
  \<^verbatim>\<open>current_value\<close>.  A character that is neither a digit nor a unit changes nothing.\<close>

fun parse_loop :: "string \<Rightarrow> parts \<times> string \<Rightarrow> py_error + (parts \<times> string)" where
  "parse_loop [] st = Inr st"
| "parse_loop (c # cs) (p, cur) =
     (if char_isdigit c then parse_loop cs (p, cur @ [c])
      else if is_unit c then
        (case py_int cur of
           Inl e \<Rightarrow> Inl e
         | Inr v \<Rightarrow> parse_loop cs (set_unit c v p, []))
      else parse_loop cs (p, cur))"

definition parse_time :: "string \<Rightarrow> py_error + parts" where
  "parse_time time_str =
     (case parse_loop time_str (\<lparr>hours = 0, minutes = 0, seconds = 0\<rparr>, []) of
        Inl e \<Rightarrow> Inl e
      | Inr (p, cur) \<Rightarrow>
          if cur \<noteq> [] then
            (case py_int cur of Inl e \<Rightarrow> Inl e | Inr v \<Rightarrow> Inr (p\<lparr>seconds := v\<rparr>))
          else Inr p)"

text \<open>
  \<^verbatim>\<open>timedelta(**parts).total_seconds()\<close>: the constructor raises \<^verbatim>\<open>OverflowError\<close>
  when the number of days exceeds 999999999 in magnitude; below that the number of seconds
  is a float without rounding.
\<close>

definition timedelta_total_seconds :: "parts \<Rightarrow> py_error + int" where
  "timedelta_total_seconds p =
     (let s = hours p * 3600 + minutes p * 60 + seconds p in
      if \<bar>s div 86400\<bar> > 999999999 then Inl OverflowError else Inr s)"

definition target_sec :: "string \<Rightarrow> py_error + int" where
  "target_sec time_str =
     (case parse_time time_str of
        Inl e \<Rightarrow> Inl e
      | Inr p \<Rightarrow> timedelta_total_seconds p)"

definition calculate_frame_number :: "capture \<Rightarrow> frame_option \<Rightarrow> int \<times> message list" where
  "calculate_frame_number cap frame_opt =
     (let total_frames = cap_frame_count cap; fps = cap_fps cap in
      case frame_opt of
        IntOpt n \<Rightarrow> (min (max n 0) (total_frames - 1), [])
      | StrOpt s \<Rightarrow>
          if prefix ''t+'' s then
            (let time_str = drop 2 s in
             case target_sec time_str of
               Inr sec \<Rightarrow> (min (int_of_float (of_int sec * fps)) (total_frames - 1), [])
             | Inl e \<Rightarrow> (0, [InvalidTimeFormat time_str]))
          else (0, [InvalidFrameOption s]))"

text \<open>The conversion of the \<^verbatim>\<open>-n\<close> argument:
  \<^verbatim>\<open>lambda x: int(x) if x.isdigit() else x\<close>.\<close>

definition frame_type :: "string \<Rightarrow> py_error + frame_option" where
  "frame_type x =
     (if str_isdigit x then (case py_int x of Inl e \<Rightarrow> Inl e | Inr n \<Rightarrow> Inr (IntOpt n))
      else Inr (StrOpt x))"


subsection \<open>Strings and paths\<close>

text \<open>\<^verbatim>\<open>str(n)\<close> for a natural number.\<close>

fun str_nat :: "nat \<Rightarrow> string" where
  "str_nat n =
     (if n < 10 then [char_of (48 + n)]
      else str_nat (n div 10) @ [char_of (48 + n mod 10)])"

declare str_nat.simps [simp del]

text \<open>\<^verbatim>\<open>f"{n:06d}"\<close>: the sign, then zeros up to a width of six, then the digits.\<close>

definition fmt_06d :: "int \<Rightarrow> string" where
  "fmt_06d n =
     (let sign = (if n < 0 then ''-'' else []); digits = str_nat (nat \<bar>n\<bar>) in
      sign @ replicate (6 - length sign - length digits) CHR ''0'' @ digits)"

text \<open>Rounding to the nearest integer, a tie going to the even neighbour.\<close>

definition round_half_even :: "rat \<Rightarrow> int" where
  "round_half_even x =
     (let f = \<lfloor>x\<rfloor>; d = x - of_int f in
      if d < 1 / 2 then f
      else if 1 / 2 < d then f + 1
      else if even f then f else f + 1)"

text \<open>
  \<^verbatim>\<open>f"{x:.2f}"\<close> on the exact value of the quotient (the rounding of the float
  division is not modelled): a negative value keeps its sign even when it prints as zero.
\<close>

definition fmt_2f :: "rat \<Rightarrow> string" where
  "fmt_2f x =
     (let r = nat \<bar>round_half_even (x * 100)\<bar>; frac = str_nat (r mod 100) in
      (if x < 0 then ''-'' else []) @ str_nat (r div 100) @ ''.''
        @ replicate (2 - length frac) CHR ''0'' @ frac)"

text \<open>\<^verbatim>\<open>s.replace(old, new)\<close> replaces every occurrence of \<open>old\<close>, found from left
  to right without overlap; an empty \<open>old\<close> matches before every character and at the
  end.\<close>

fun replace_scan :: "string \<Rightarrow> string \<Rightarrow> string \<Rightarrow> string" where
  "replace_scan old new [] = []"
| "replace_scan old new (c # cs) =
     (if old \<noteq> [] \<and> prefix old (c # cs)
      then new @ replace_scan old new (drop (length old) (c # cs))
      else c # replace_scan old new cs)"

definition py_replace :: "string \<Rightarrow> string \<Rightarrow> string \<Rightarrow> string" where
  "py_replace old new s =
     (if old = [] then new @ concat (map (\<lambda>c. c # new) s) else replace_scan old new s)"

text \<open>\<^verbatim>\<open>s.split(sep)\<close> for a separator of one character.\<close>

fun split_on :: "char \<Rightarrow> string \<Rightarrow> string list" where
  "split_on sep [] = [[]]"
| "split_on sep (c # cs) =
     (if c = sep then [] # split_on sep cs
      else (case split_on sep cs of p # ps \<Rightarrow> (c # p) # ps | [] \<Rightarrow> [[c]]))"

text \<open>\<^verbatim>\<open>s.split(sep, 1)\<close>: one piece, or the text before the first separator and all
  the text after it.\<close>

definition split_once :: "char \<Rightarrow> string \<Rightarrow> string list" where
  "split_once sep s =
     (if sep \<in> set s then [takeWhile (\<lambda>c. c \<noteq> sep) s, tl (dropWhile (\<lambda>c. c \<noteq> sep) s)]
      else [s])"

text \<open>The POSIX versions of \<^verbatim>\<open>os.path.basename\<close>, \<^verbatim>\<open>os.path.splitext\<close> and
  \<^verbatim>\<open>os.path.join\<close>.  \<open>dirpart\<close> is the path up to its last slash, included.\<close>

definition basename :: "string \<Rightarrow> string" where
  "basename p = rev (takeWhile (\<lambda>c. c \<noteq> CHR ''/'') (rev p))"

definition dirpart :: "string \<Rightarrow> string" where
  "dirpart p = rev (dropWhile (\<lambda>c. c \<noteq> CHR ''/'') (rev p))"

text \<open>The extension starts at the last dot of the file name, unless only dots come
  before it there.\<close>

definition splitext :: "string \<Rightarrow> string \<times> string" where
  "splitext p =
     (let name = basename p;
          ext = CHR ''.'' # rev (takeWhile (\<lambda>c. c \<noteq> CHR ''.'') (rev name));
          stem = take (length name - length ext) name
      in if CHR ''.'' \<in> set name \<and> (\<exists>c \<in> set stem. c \<noteq> CHR ''.'')
         then (dirpart p @ stem, ext) else (p, []))"

definition path_join :: "string \<Rightarrow> string \<Rightarrow> string" where
  "path_join a b =
     (if prefix ''/'' b then b
      else if a = [] \<or> suffix ''/'' a then a @ b
      else a @ ''/'' @ b)"

subsection \<open>Name templates\<close>

text \<open>
  The four patterns of \<^verbatim>\<open>apply_regex_pattern\<close>, each tried at the head of the text.
  All have the shape of an opening brace, one group and a closing brace; the result is
  the group.  \<^verbatim>\<open>\w+\<close> takes the longest run of word characters, since what must follow
  is not a word character; \<^verbatim>\<open>[^}]+\<close> stops at the first closing brace, which is the only
  place where the closing brace of the pattern can match.
\<close>

text \<open>\<^verbatim>\<open>{(\w+\.\w+)}\<close>\<close>

definition match_dotted :: "string \<Rightarrow> string option" where
  "match_dotted s =
     (case s of
        [] \<Rightarrow> None
      | c # r \<Rightarrow>
          (let w1 = takeWhile word_char r; r1 = dropWhile word_char r;
               w2 = takeWhile word_char (tl r1); r2 = dropWhile word_char (tl r1)
           in if c = CHR ''{'' \<and> w1 \<noteq> [] \<and> prefix ''.'' r1 \<and> w2 \<noteq> [] \<and> prefix ''}'' r2
              then Some (w1 @ ''.'' @ w2) else None))"

text \<open>\<^verbatim>\<open>{(\w+:[^}]+)}\<close>\<close>

definition match_colon :: "string \<Rightarrow> string option" where
  "match_colon s =
     (case s of
        [] \<Rightarrow> None
      | c # r \<Rightarrow>
          (let w = takeWhile word_char r; r1 = dropWhile word_char r;
               body = takeWhile (\<lambda>x. x \<noteq> CHR ''}'') (tl r1);
               r2 = dropWhile (\<lambda>x. x \<noteq> CHR ''}'') (tl r1)
           in if c = CHR ''{'' \<and> w \<noteq> [] \<and> prefix '':'' r1 \<and> body \<noteq> [] \<and> r2 \<noteq> []
              then Some (w @ '':'' @ body) else None))"

text \<open>\<^verbatim>\<open>{(n\.match\([^}]+\))}\<close> and \<^verbatim>\<open>{(n\.replace\([^}]+\))}\<close>: after the opening
  parenthesis, the text up to the first closing brace must end with a closing parenthesis
  and hold at least one character before it.\<close>

definition match_call :: "string \<Rightarrow> string \<Rightarrow> string option" where
  "match_call name s =
     (let opening = ''{'' @ name @ ''('';
          r = drop (length opening) s;
          body = takeWhile (\<lambda>x. x \<noteq> CHR ''}'') r;
          r1 = dropWhile (\<lambda>x. x \<noteq> CHR ''}'') r
      in if prefix opening s \<and> 2 \<le> length body \<and> last body = CHR '')'' \<and> r1 \<noteq> []
         then Some (name @ ''('' @ body) else None)"

text \<open>
  \<^verbatim>\<open>re.sub(pattern, repl, text)\<close> with a function \<open>repl\<close>: the text is scanned from
  left to right; where the pattern matches, the match (the group between two braces) is
  replaced by the result of \<open>repl\<close> on the group and the scan goes on behind the match.
  An exception of \<open>repl\<close> ends the scan.
\<close>

fun re_sub :: "(string \<Rightarrow> string option) \<Rightarrow> (string \<Rightarrow> py_error + string) \<Rightarrow> string
    \<Rightarrow> py_error + string" where
  "re_sub m repl [] = Inr []"
| "re_sub m repl (c # cs) =
     (case m (c # cs) of
        None \<Rightarrow> (case re_sub m repl cs of Inl e \<Rightarrow> Inl e | Inr r \<Rightarrow> Inr (c # r))
      | Some g \<Rightarrow>
          (case repl g of
             Inl e \<Rightarrow> Inl e
           | Inr v \<Rightarrow>
               (case re_sub m repl (drop (length g + 2) (c # cs)) of
                  Inl e \<Rightarrow> Inl e
                | Inr r \<Rightarrow> Inr (v @ r))))"

text \<open>
  \<^verbatim>\<open>re.search(regex, original)\<close> followed by \<^verbatim>\<open>group()\<close> is the work of Python's
  regular-expression engine, a parameter here: \<open>Inl\<close> when the engine raises (an
  invalid expression), \<open>Inr None\<close> when nothing matches, \<open>Inr (Some m)\<close> with the matched
  text otherwise.
\<close>

type_synonym re_engine = "string \<Rightarrow> string \<Rightarrow> py_error + string option"

text \<open>An engine that rejects every expression, for the templates without
  \<^verbatim>\<open>n.match\<close>.\<close>

definition no_regex :: re_engine where
  "no_regex regex subject = Inl ReError"

text \<open>The test \<^verbatim>\<open>':' in command\<close> with \<^verbatim>\<open>parts[0] == 'n' and parts[1].isdigit()\<close>:
  the result is \<^verbatim>\<open>parts[1]\<close> when the test holds.\<close>

definition slice_arg :: "string \<Rightarrow> string option" where
  "slice_arg command =
     (if CHR '':'' \<in> set command then
        (case split_on CHR '':'' command of
           p0 # p1 # ps \<Rightarrow> if p0 = ''n'' \<and> str_isdigit p1 then Some p1 else None
         | _ \<Rightarrow> None)
      else None)"

text \<open>\<^verbatim>\<open>regex_replacer\<close>; \<open>command\<close> is \<^verbatim>\<open>match.group(1)\<close>, and \<^verbatim>\<open>match.group(0)\<close>
  is the command between braces.\<close>

definition regex_replacer :: "re_engine \<Rightarrow> string \<Rightarrow> string \<Rightarrow> py_error + string" where
  "regex_replacer re_search original command =
     (case slice_arg command of
        Some k \<Rightarrow>
          (case py_int k of Inl e \<Rightarrow> Inl e | Inr i \<Rightarrow> Inr (take (nat i) original))
      | None \<Rightarrow>
          if prefix ''n.match('' command then
            (case re_search (butlast (drop 8 command)) original of
               Inl e \<Rightarrow> Inl e
             | Inr (Some matched) \<Rightarrow> Inr matched
             | Inr None \<Rightarrow> Inr [])
          else if prefix ''n.replace('' command then
            (case split_once CHR '','' (butlast (drop 10 command)) of
               [a0, a1] \<Rightarrow> Inr (py_replace a0 a1 original)
             | _ \<Rightarrow> Inl IndexError)
          else Inr (''{'' @ command @ ''}''))"

text \<open>The dictionary \<^verbatim>\<open>replacements\<close>, in the order of its keys.\<close>

definition replacements :: "string \<Rightarrow> int \<Rightarrow> string \<Rightarrow> (string \<times> string) list" where
  "replacements original frame_num time_pos =
     [(''{n}'', original),
      (''{f}'', fmt_06d frame_num),
      (''{t}'', time_pos),
      (''{n.base}'', fst (splitext original)),
      (''{n.digits}'', filter char_isdigit original),
      (''{n.letters}'', filter char_isalpha original)]"

text \<open>The loop \<^verbatim>\<open>for k, v in replacements.items(): pattern = pattern.replace(k, v)\<close>.\<close>

definition substitute_tokens :: "(string \<times> string) list \<Rightarrow> string \<Rightarrow> string" where
  "substitute_tokens reps pattern = foldl (\<lambda>p (k, v). py_replace k v p) pattern reps"

text \<open>The body of the \<^verbatim>\<open>try\<close> block.\<close>

definition render_try :: "re_engine \<Rightarrow> string \<Rightarrow> string \<Rightarrow> int \<Rightarrow> string \<Rightarrow> py_error + string"
  where
  "render_try re_search original pattern frame_num time_pos =
     (let repl = regex_replacer re_search original;
          p0 = substitute_tokens (replacements original frame_num time_pos) pattern
      in case re_sub match_dotted repl p0 of
           Inl e \<Rightarrow> Inl e
         | Inr p1 \<Rightarrow>
             (case re_sub match_colon repl p1 of
                Inl e \<Rightarrow> Inl e
              | Inr p2 \<Rightarrow>
                  (case re_sub (match_call ''n.match'') repl p2 of
                     Inl e \<Rightarrow> Inl e
                   | Inr p3 \<Rightarrow> re_sub (match_call ''n.replace'') repl p3)))"

definition apply_regex_pattern ::
  "re_engine \<Rightarrow> string \<Rightarrow> string \<Rightarrow> int \<Rightarrow> string \<Rightarrow> string \<times> message list" where
  "apply_regex_pattern re_search original pattern frame_num time_pos =
     (case render_try re_search original pattern frame_num time_pos of
        Inr name \<Rightarrow> (name, [])
      | Inl e \<Rightarrow> (original @ ''_error'', [PatternError e]))"

subsection \<open>Path de-duplication\<close>

text \<open>The candidate \<^verbatim>\<open>f"{base}_{counter}{ext}"\<close>.\<close>

definition candidate :: "string \<Rightarrow> string \<Rightarrow> nat \<Rightarrow> string" where
  "candidate base ext counter = base @ ''_'' @ str_nat counter @ ext"

text \<open>
  The loop of \<^verbatim>\<open>avoid_overwrite\<close>; \<open>exists\<close> is \<^verbatim>\<open>os.path.exists\<close>.  The loop
  runs for as long as the candidate exists, so the result is an option: \<open>None\<close> when it
  never ends.
\<close>

partial_function (option) avoid_loop ::
  "(string \<Rightarrow> bool) \<Rightarrow> string \<Rightarrow> string \<Rightarrow> string \<Rightarrow> nat \<Rightarrow> string option" where
  "avoid_loop exists base ext path counter =
     (if exists path
      then avoid_loop exists base ext (candidate base ext counter) (counter + 1)
      else Some path)"

declare avoid_loop.simps [code]

definition avoid_overwrite :: "(string \<Rightarrow> bool) \<Rightarrow> string \<Rightarrow> string option" where
  "avoid_overwrite exists path =
     (case splitext path of (base, ext) \<Rightarrow> avoid_loop exists base ext path 1)"

subsection \<open>Extracting one frame\<close>

text \<open>
  The collaborators of \<^verbatim>\<open>extract_frame\<close>: opening a video (\<open>None\<close> when
  \<^verbatim>\<open>isOpened\<close> is false), seeking and reading the frame of an index, the test
  \<^verbatim>\<open>os.path.exists\<close>, the exception that \<^verbatim>\<open>cv2.imwrite\<close> raises on a path, if any,
  and the regular-expression engine.
\<close>

record env =
  env_open :: "string \<Rightarrow> capture option"
  env_read :: "string \<Rightarrow> int \<Rightarrow> bool"
  env_exists :: "string \<Rightarrow> bool"
  env_imwrite :: "string \<Rightarrow> py_error option"
  env_re_search :: re_engine

text \<open>The frame rate used for the time label: \<^verbatim>\<open>if fps <= 0: ... fps = 30.0\<close>.\<close>

definition label_fps :: "capture \<Rightarrow> rat \<times> message list" where
  "label_fps cap = (if cap_fps cap \<le> 0 then (30, [FpsWarning]) else (cap_fps cap, []))"

text \<open>The file name, from \<^verbatim>\<open>keep_original_name\<close>, a non-empty \<^verbatim>\<open>name_pattern\<close> or
  the default scheme.\<close>

definition make_filename ::
  "re_engine \<Rightarrow> string \<Rightarrow> string option \<Rightarrow> bool \<Rightarrow> int \<Rightarrow> string \<Rightarrow> string \<times> message list"
  where
  "make_filename re_search original_name name_pattern keep_original_name frame_number
      time_position =
     (if keep_original_name then (original_name, [])
      else if name_pattern \<noteq> None \<and> name_pattern \<noteq> Some [] then
        apply_regex_pattern re_search original_name (the name_pattern) frame_number
          time_position
      else (original_name @ ''_f'' @ fmt_06d frame_number @ ''_'' @ time_position, []))"

text \<open>
  \<^verbatim>\<open>extract_frame\<close> returns what it printed and the path it wrote, if any; the whole
  result is \<open>None\<close> when the loop of \<^verbatim>\<open>avoid_overwrite\<close> does not end.
\<close>

definition extract_frame ::
  "env \<Rightarrow> string \<Rightarrow> frame_option \<Rightarrow> string \<Rightarrow> string \<Rightarrow> string option \<Rightarrow> bool
    \<Rightarrow> (message list \<times> string option) option" where
  "extract_frame e video_path frame_opt output_format output_dir name_pattern
      keep_original_name =
     (case env_open e video_path of
        None \<Rightarrow> Some ([CannotOpen video_path], None)
      | Some cap \<Rightarrow>
          (let (frame_number, msgs0) = calculate_frame_number cap frame_opt;
               (fps, msgs1) = label_fps cap
           in if \<not> env_read e video_path frame_number
              then Some (msgs0 @ msgs1 @ [CannotReadFrame video_path frame_number], None)
              else
                (let time_position = fmt_2f (of_int frame_number / fps) @ ''s'';
                     original_name = fst (splitext (basename video_path));
                     (filename, msgs2) =
                       make_filename (env_re_search e) original_name name_pattern
                         keep_original_name frame_number time_position;
                     output_path = path_join output_dir (filename @ ''.'' @ output_format)
                 in case avoid_overwrite (env_exists e) output_path of
                      None \<Rightarrow> None
                    | Some out \<Rightarrow>
                        (case env_imwrite e out of
                           Some err \<Rightarrow>
                             Some (msgs0 @ msgs1 @ msgs2 @ [ErrorOccurred err], None)
                         | None \<Rightarrow>
                             Some (msgs0 @ msgs1 @ msgs2 @ [Saved out], Some out)))))"

subsection \<open>Auxiliary predicates\<close>

text \<open>The invariant of the loop of \<^verbatim>\<open>parse_time\<close>: no part is negative.\<close>

definition nonneg_parts :: "parts \<Rightarrow> bool" where
  "nonneg_parts p = (0 \<le> hours p \<and> 0 \<le> minutes p \<and> 0 \<le> seconds p)"

text \<open>The template of a replace directive, behind its opening brace.\<close>

abbreviation (input) replace_tail :: "string \<Rightarrow> string \<Rightarrow> string" where
  "replace_tail old new \<equiv> ''n.replace('' @ old @ '','' @ new @ '')}''"

text \<open>The decimal digits of \<open>n\<close> on \<open>w\<close> places, the most significant first.\<close>

abbreviation (input) digits_of :: "nat \<Rightarrow> nat \<Rightarrow> string" where
  "digits_of w n \<equiv> map (\<lambda>i. char_of (48 + n div 10 ^ (w - 1 - i) mod 10)) [0..<w]"

section \<open>Properties\<close>

subsection \<open>Frame resolution\<close>

lemma min_max_clamp:
  fixes n t :: int
  assumes "1 \<le> t"
  shows "min (max n 0) (t - 1) = (if n < 0 then 0 else if t - 1 < n then t - 1 else n)"
  using assms by auto

text \<open>
  Claim C5.  For every integer \<open>n\<close> and every frame count \<open>T \<ge> 1\<close>, the absolute
  specifier \<open>n\<close> resolves to \<open>min (max n 0) (T - 1)\<close>: 0 for a negative \<open>n\<close>, \<open>T - 1\<close>
  for an \<open>n\<close> beyond the last frame, \<open>n\<close> itself otherwise.  The index lies in
  \<open>[0, T - 1]\<close> and nothing is printed.
\<close>

theorem absolute_clamped:
  assumes "1 \<le> cap_frame_count cap"
  shows "calculate_frame_number cap (IntOpt n) = (min (max n 0) (cap_frame_count cap - 1), [])
    \<and> fst (calculate_frame_number cap (IntOpt n)) =
        (if n < 0 then 0
         else if cap_frame_count cap - 1 < n then cap_frame_count cap - 1 else n)
    \<and> 0 \<le> fst (calculate_frame_number cap (IntOpt n))
    \<and> fst (calculate_frame_number cap (IntOpt n)) \<le> cap_frame_count cap - 1"
proof -
  have eq: "calculate_frame_number cap (IntOpt n) = (min (max n 0) (cap_frame_count cap - 1), [])"
    by (simp add: calculate_frame_number_def)
  have cases: "min (max n 0) (cap_frame_count cap - 1) =
      (if n < 0 then 0 else if cap_frame_count cap - 1 < n then cap_frame_count cap - 1 else n)"
    by (rule min_max_clamp [OF assms])
  have lo: "0 \<le> min (max n 0) (cap_frame_count cap - 1)"
    using assms by simp
  have hi: "min (max n 0) (cap_frame_count cap - 1) \<le> cap_frame_count cap - 1"
    by simp
  show ?thesis
    unfolding eq fst_conv using cases lo hi by simp
qed

theorem absolute_clamped_witness:
  "1 \<le> cap_frame_count \<lparr>cap_frame_count = 100, cap_fps = 30\<rparr>
   \<and> calculate_frame_number \<lparr>cap_frame_count = 100, cap_fps = 30\<rparr> (IntOpt (- 7)) = (0, [])
   \<and> calculate_frame_number \<lparr>cap_frame_count = 100, cap_fps = 30\<rparr> (IntOpt 250) = (99, [])
   \<and> calculate_frame_number \<lparr>cap_frame_count = 100, cap_fps = 30\<rparr> (IntOpt 42) = (42, [])"
proof -
  have h: "1 \<le> cap_frame_count \<lparr>cap_frame_count = 100, cap_fps = 30\<rparr>"
    by simp
  show ?thesis
    using h absolute_clamped [OF h, of "- 7"] absolute_clamped [OF h, of 250]
      absolute_clamped [OF h, of 42]
    by simp
qed

text \<open>
  Claim C10.  A string specifier that does not begin with \<open>t+\<close> resolves to index 0
  with the invalid-specifier message, whatever the capture reports.  The conversion of
  the \<open>-n\<close> argument leaves every string that is not made of digits a string, so
  \<open>-5\<close> arrives as a string and resolves to 0 through the message, not by clamping.
\<close>

theorem invalid_specifier_zero:
  "(\<not> prefix ''t+'' s \<longrightarrow>
      calculate_frame_number cap (StrOpt s) = (0, [InvalidFrameOption s]))
   \<and> (\<not> str_isdigit x \<longrightarrow> frame_type x = Inr (StrOpt x))
   \<and> frame_type ''-5'' = Inr (StrOpt ''-5'')
   \<and> calculate_frame_number cap (StrOpt ''-5'') = (0, [InvalidFrameOption ''-5''])"
proof -
  have a: "\<not> prefix ''t+'' s \<longrightarrow>
      calculate_frame_number cap (StrOpt s) = (0, [InvalidFrameOption s])"
    by (simp add: calculate_frame_number_def)
  have b: "\<not> str_isdigit x \<longrightarrow> frame_type x = Inr (StrOpt x)"
    by (simp add: frame_type_def)
  have c: "\<not> str_isdigit ''-5''"
    by (simp add: str_isdigit_def char_isdigit_def char_isdecimal_def code_point_def)
  have d: "frame_type ''-5'' = Inr (StrOpt ''-5'')"
    using c by (simp add: frame_type_def)
  have e: "calculate_frame_number cap (StrOpt ''-5'') = (0, [InvalidFrameOption ''-5''])"
    by (simp add: calculate_frame_number_def)
  from a b d e show ?thesis by blast
qed

theorem invalid_specifier_zero_witness:
  "\<not> prefix ''t+'' ''-5'' \<and> \<not> str_isdigit ''-5''
   \<and> calculate_frame_number \<lparr>cap_frame_count = 100, cap_fps = 30\<rparr> (StrOpt ''-5'')
       = (0, [InvalidFrameOption ''-5''])
   \<and> frame_type ''-5'' = Inr (StrOpt ''-5'')"
proof -
  have p: "\<not> prefix ''t+'' ''-5''"
    by simp
  have q: "\<not> str_isdigit ''-5''"
    by (simp add: str_isdigit_def char_isdigit_def char_isdecimal_def code_point_def)
  show ?thesis
    using p q
      invalid_specifier_zero [of "''-5''" "\<lparr>cap_frame_count = 100, cap_fps = 30\<rparr>" "''-5''"]
    by blast
qed

lemma py_int_nonneg: "py_int s = Inr v \<Longrightarrow> 0 \<le> v"
  by (auto simp: py_int_def split: if_splits)

lemma set_unit_nonneg: "nonneg_parts p \<Longrightarrow> 0 \<le> v \<Longrightarrow> nonneg_parts (set_unit c v p)"
  by (simp add: nonneg_parts_def set_unit_def)

lemma parse_loop_nonneg:
  "parse_loop s st = Inr st' \<Longrightarrow> nonneg_parts (fst st) \<Longrightarrow> nonneg_parts (fst st')"
proof (induction s st rule: parse_loop.induct)
  case (1 st)
  then show ?case by simp
next
  case (2 c cs p cur)
  show ?case
  proof (cases "char_isdigit c")
    case True
    with 2 show ?thesis by simp
  next
    case nd: False
    show ?thesis
    proof (cases "is_unit c")
      case True
      with nd 2 show ?thesis
        by (auto split: sum.splits dest: py_int_nonneg intro: set_unit_nonneg)
    next
      case False
      with nd 2 show ?thesis by simp
    qed
  qed
qed

lemma parse_time_nonneg: "parse_time s = Inr p \<Longrightarrow> nonneg_parts p"
proof -
  assume a: "parse_time s = Inr p"
  have init: "nonneg_parts (fst (\<lparr>hours = 0, minutes = 0, seconds = 0\<rparr>, []::string))"
    by (simp add: nonneg_parts_def)
  from a obtain q cur where
    l: "parse_loop s (\<lparr>hours = 0, minutes = 0, seconds = 0\<rparr>, []) = Inr (q, cur)"
    by (auto simp: parse_time_def split: sum.splits)
  have q: "nonneg_parts q"
    using parse_loop_nonneg [OF l init] by simp
  from a l q show ?thesis
    by (auto simp: parse_time_def nonneg_parts_def split: sum.splits if_splits
        dest: py_int_nonneg)
qed

lemma target_sec_nonneg: "target_sec s = Inr sec \<Longrightarrow> 0 \<le> sec"
  by (auto simp: target_sec_def timedelta_total_seconds_def Let_def nonneg_parts_def
      split: sum.splits if_splits dest!: parse_time_nonneg)

lemma int_of_float_nonneg: "0 \<le> x \<Longrightarrow> 0 \<le> int_of_float x"
  by (simp add: int_of_float_def)

text \<open>With a frame rate that is not negative and at least one frame, every index that
  \<^verbatim>\<open>calculate_frame_number\<close> returns is the index of a frame.\<close>

lemma index_in_range:
  assumes "1 \<le> cap_frame_count cap" "0 \<le> cap_fps cap"
  shows "0 \<le> fst (calculate_frame_number cap fo) \<and>
    fst (calculate_frame_number cap fo) \<le> cap_frame_count cap - 1"
proof (cases fo)
  case (IntOpt n)
  with assms show ?thesis by (simp add: calculate_frame_number_def)
next
  case (StrOpt s)
  show ?thesis
  proof (cases "prefix ''t+'' s")
    case False
    with StrOpt assms show ?thesis by (simp add: calculate_frame_number_def)
  next
    case True
    show ?thesis
    proof (cases "target_sec (drop 2 s)")
      case (Inl e)
      with True StrOpt assms show ?thesis by (simp add: calculate_frame_number_def)
    next
      case (Inr sec)
      have "0 \<le> of_int sec * cap_fps cap"
        using target_sec_nonneg [OF Inr] assms(2) by simp
      then have "0 \<le> int_of_float (of_int sec * cap_fps cap)"
        by (rule int_of_float_nonneg)
      with Inr True StrOpt assms show ?thesis by (simp add: calculate_frame_number_def)
    qed
  qed
qed

text \<open>
  Claim C2.  The claim: a relative specifier resolves to the duration times the frame
  rate, truncated and clamped into \<open>[0, T - 1]\<close>, for any frame rate.  The relative
  branch takes the minimum with \<open>T - 1\<close> only; it has no lower bound, which the branch of
  the absolute specifier has.  With the frame rate \<open>-1\<close> and 100 frames, \<open>t+5\<close> resolves
  to \<open>-5\<close>.
\<close>

theorem relative_negative_fps:
  "calculate_frame_number \<lparr>cap_frame_count = 100, cap_fps = - 1\<rparr> (StrOpt ''t+5'')
     = (- 5, [])"
  by code_simp

text \<open>
  Claim C4.  The claim: with a frame rate of zero or less, the default of 30 is what
  resolves a relative specifier and what the time label is computed from.
  \<^verbatim>\<open>calculate_frame_number\<close> reads the frame rate of the capture itself: with the frame
  rate 0, \<open>t+10\<close> resolves to frame 0, where the rate 30 gives frame 300.
  \<^verbatim>\<open>extract_frame\<close> then prints the warning and computes the label of frame 0 from the
  default.
\<close>

theorem fps_default_after_resolution:
  "calculate_frame_number \<lparr>cap_frame_count = 1000, cap_fps = 0\<rparr> (StrOpt ''t+10'') = (0, [])
   \<and> calculate_frame_number \<lparr>cap_frame_count = 1000, cap_fps = 30\<rparr> (StrOpt ''t+10'')
       = (300, [])
   \<and> label_fps \<lparr>cap_frame_count = 1000, cap_fps = 0\<rparr> = (30, [FpsWarning])
   \<and> extract_frame
        \<lparr>env_open = (\<lambda>p. Some \<lparr>cap_frame_count = 1000, cap_fps = 0\<rparr>),
         env_read = (\<lambda>p i. True), env_exists = (\<lambda>p. False), env_imwrite = (\<lambda>p. None),
         env_re_search = no_regex\<rparr>
        ''videos/clip.mp4'' (StrOpt ''t+10'') ''jpg'' ''thumbs'' None False
       = Some ([FpsWarning, Saved ''thumbs/clip_f000000_0.00s.jpg''],
               Some ''thumbs/clip_f000000_0.00s.jpg'')"
  by code_simp

text \<open>
  Claim C7.  The claim: every resolved index lies in \<open>[0, T - 1]\<close>, and a video that
  reports no frame is a failure that is never resolved to an index.  The program has no
  test of the frame count: with \<open>T = 0\<close> the absolute specifier 5 resolves to \<open>-1\<close>, and
  when the decoder delivers a frame the image is saved under that index.
\<close>

theorem zero_frames_resolved_counterexample:
  "calculate_frame_number \<lparr>cap_frame_count = 0, cap_fps = 30\<rparr> (IntOpt 5) = (- 1, [])
   \<and> \<not> 0 \<le> fst (calculate_frame_number \<lparr>cap_frame_count = 0, cap_fps = 30\<rparr> (IntOpt 5))
   \<and> extract_frame
        \<lparr>env_open = (\<lambda>p. Some \<lparr>cap_frame_count = 0, cap_fps = 30\<rparr>),
         env_read = (\<lambda>p i. True), env_exists = (\<lambda>p. False), env_imwrite = (\<lambda>p. None),
         env_re_search = no_regex\<rparr>
        ''videos/clip.mp4'' (IntOpt 5) ''jpg'' ''thumbs'' None False
       = Some ([Saved ''thumbs/clip_f-00001_-0.03s.jpg''],
               Some ''thumbs/clip_f-00001_-0.03s.jpg'')"
  by code_simp

lemma avoid_overwrite_free_path:
  "\<not> exists p \<Longrightarrow> avoid_overwrite exists p = Some p"
  by (simp add: avoid_overwrite_def split_beta avoid_loop.simps [of exists _ _ p])

text \<open>A video without frames, an absolute specifier: the frame asked of the decoder is
  \<open>-1\<close>.\<close>

lemma extract_zero_frames_unreadable:
  assumes "env_open e vp = Some cap" "cap_frame_count cap = 0" "\<not> env_read e vp (- 1)"
  shows "extract_frame e vp (IntOpt n) fmt dir pat keep
    = Some ((if cap_fps cap \<le> 0 then [FpsWarning] else []) @ [CannotReadFrame vp (- 1)], None)"
  using assms
  by (simp add: extract_frame_def calculate_frame_number_def label_fps_def)

lemma extract_zero_frames_written:
  assumes "env_open e vp = Some cap" "cap_frame_count cap = 0" "env_read e vp (- 1)"
    and free: "\<forall>p. \<not> env_exists e p"
  shows "\<exists>msgs out.
    extract_frame e vp (IntOpt n) fmt dir pat keep =
      (case env_imwrite e out of
         None \<Rightarrow> Some (msgs @ [Saved out], Some out)
       | Some err \<Rightarrow> Some (msgs @ [ErrorOccurred err], None))"
proof -
  let ?fps = "fst (label_fps cap)"
  let ?name = "make_filename (env_re_search e) (fst (splitext (basename vp))) pat keep (- 1)
      (fmt_2f (of_int (- 1) / ?fps) @ ''s'')"
  let ?out = "path_join dir (fst ?name @ ''.'' @ fmt)"
  have a: "avoid_overwrite (env_exists e) ?out = Some ?out"
    using free by (intro avoid_overwrite_free_path) simp
  have "extract_frame e vp (IntOpt n) fmt dir pat keep =
      (case env_imwrite e ?out of
         None \<Rightarrow> Some ((snd (label_fps cap) @ snd ?name) @ [Saved ?out], Some ?out)
       | Some err \<Rightarrow> Some ((snd (label_fps cap) @ snd ?name) @ [ErrorOccurred err], None))"
    using assms(1,2,3) a
    by (simp add: extract_frame_def calculate_frame_number_def Let_def split_beta
        split: option.splits)
  then show ?thesis by blast
qed

text \<open>
  Claim C7, amended.  With at least one frame and a frame rate that is not negative, every
  index that the resolver returns lies in \<open>[0, T - 1]\<close>.  A video that reports no frame
  is not rejected: an absolute specifier resolves to the index \<open>-1\<close>, without a
  message, and \<^verbatim>\<open>extract_frame\<close> asks the decoder for that frame.  When the read
  fails, the file is skipped with the message that the frame cannot be read.  When the
  read succeeds and no output file exists yet, the image is written and reported as
  saved, unless the write raises, which is reported as an error.
\<close>

theorem resolved_index_range:
  "(1 \<le> cap_frame_count cap \<and> 0 \<le> cap_fps cap \<longrightarrow>
      0 \<le> fst (calculate_frame_number cap fo)
      \<and> fst (calculate_frame_number cap fo) \<le> cap_frame_count cap - 1)
   \<and> (cap_frame_count cap0 = 0 \<longrightarrow> calculate_frame_number cap0 (IntOpt n) = (- 1, []))
   \<and> (env_open e1 vp = Some cap0 \<and> cap_frame_count cap0 = 0 \<and> \<not> env_read e1 vp (- 1) \<longrightarrow>
        extract_frame e1 vp (IntOpt n) fmt dir pat keep
          = Some ((if cap_fps cap0 \<le> 0 then [FpsWarning] else [])
                    @ [CannotReadFrame vp (- 1)], None))
   \<and> (env_open e2 vp = Some cap0 \<and> cap_frame_count cap0 = 0 \<and> env_read e2 vp (- 1)
        \<and> (\<forall>p. \<not> env_exists e2 p) \<and> (\<forall>p. env_imwrite e2 p = None) \<longrightarrow>
        (\<exists>msgs out. extract_frame e2 vp (IntOpt n) fmt dir pat keep
           = Some (msgs @ [Saved out], Some out)))
   \<and> (env_open e3 vp = Some cap0 \<and> cap_frame_count cap0 = 0 \<and> env_read e3 vp (- 1)
        \<and> (\<forall>p. \<not> env_exists e3 p) \<and> (\<forall>p. env_imwrite e3 p = Some err) \<longrightarrow>
        (\<exists>msgs. extract_frame e3 vp (IntOpt n) fmt dir pat keep
           = Some (msgs @ [ErrorOccurred err], None)))"
proof -
  have a: "1 \<le> cap_frame_count cap \<and> 0 \<le> cap_fps cap \<longrightarrow>
      0 \<le> fst (calculate_frame_number cap fo)
      \<and> fst (calculate_frame_number cap fo) \<le> cap_frame_count cap - 1"
    using index_in_range [of cap fo] by blast
  have b: "cap_frame_count cap0 = 0 \<longrightarrow> calculate_frame_number cap0 (IntOpt n) = (- 1, [])"
    by (simp add: calculate_frame_number_def)
  have c: "env_open e1 vp = Some cap0 \<and> cap_frame_count cap0 = 0 \<and> \<not> env_read e1 vp (- 1) \<longrightarrow>
        extract_frame e1 vp (IntOpt n) fmt dir pat keep
          = Some ((if cap_fps cap0 \<le> 0 then [FpsWarning] else [])
                    @ [CannotReadFrame vp (- 1)], None)"
    using extract_zero_frames_unreadable [of e1 vp cap0 n fmt dir pat keep] by blast
  have d: "\<exists>msgs out. extract_frame e2 vp (IntOpt n) fmt dir pat keep
           = Some (msgs @ [Saved out], Some out)"
    if h: "env_open e2 vp = Some cap0 \<and> cap_frame_count cap0 = 0 \<and> env_read e2 vp (- 1)
        \<and> (\<forall>p. \<not> env_exists e2 p) \<and> (\<forall>p. env_imwrite e2 p = None)"
  proof -
    from h obtain msgs out where
      "extract_frame e2 vp (IntOpt n) fmt dir pat keep =
        (case env_imwrite e2 out of
           None \<Rightarrow> Some (msgs @ [Saved out], Some out)
         | Some err \<Rightarrow> Some (msgs @ [ErrorOccurred err], None))"
      using extract_zero_frames_written [of e2 vp cap0 n fmt dir pat keep] by blast
    with h show ?thesis by auto
  qed
  have e: "\<exists>msgs. extract_frame e3 vp (IntOpt n) fmt dir pat keep
           = Some (msgs @ [ErrorOccurred err], None)"
    if h: "env_open e3 vp = Some cap0 \<and> cap_frame_count cap0 = 0 \<and> env_read e3 vp (- 1)
        \<and> (\<forall>p. \<not> env_exists e3 p) \<and> (\<forall>p. env_imwrite e3 p = Some err)"
  proof -
    from h obtain msgs out where
      "extract_frame e3 vp (IntOpt n) fmt dir pat keep =
        (case env_imwrite e3 out of
           None \<Rightarrow> Some (msgs @ [Saved out], Some out)
         | Some err \<Rightarrow> Some (msgs @ [ErrorOccurred err], None))"
      using extract_zero_frames_written [of e3 vp cap0 n fmt dir pat keep] by blast
    with h show ?thesis by auto
  qed
  from a b c d e show ?thesis by blast
qed

theorem resolved_index_range_witness:
  "1 \<le> cap_frame_count \<lparr>cap_frame_count = 100, cap_fps = 30\<rparr>
   \<and> 0 \<le> cap_fps \<lparr>cap_frame_count = 100, cap_fps = 30\<rparr>
   \<and> 0 \<le> fst (calculate_frame_number \<lparr>cap_frame_count = 100, cap_fps = 30\<rparr>
              (StrOpt ''t+1m30s''))
   \<and> fst (calculate_frame_number \<lparr>cap_frame_count = 100, cap_fps = 30\<rparr>
              (StrOpt ''t+1m30s'')) \<le> 99
   \<and> cap_frame_count \<lparr>cap_frame_count = 0, cap_fps = 30\<rparr> = 0
   \<and> calculate_frame_number \<lparr>cap_frame_count = 0, cap_fps = 30\<rparr> (IntOpt 5) = (- 1, [])
   \<and> extract_frame
        \<lparr>env_open = (\<lambda>p. Some \<lparr>cap_frame_count = 0, cap_fps = 30\<rparr>),
         env_read = (\<lambda>p i. False), env_exists = (\<lambda>p. False), env_imwrite = (\<lambda>p. None),
         env_re_search = no_regex\<rparr>
        ''videos/clip.mp4'' (IntOpt 5) ''jpg'' ''thumbs'' None False
       = Some ([CannotReadFrame ''videos/clip.mp4'' (- 1)], None)
   \<and> (\<exists>msgs out. extract_frame
        \<lparr>env_open = (\<lambda>p. Some \<lparr>cap_frame_count = 0, cap_fps = 30\<rparr>),
         env_read = (\<lambda>p i. True), env_exists = (\<lambda>p. False), env_imwrite = (\<lambda>p. None),
         env_re_search = no_regex\<rparr>
        ''videos/clip.mp4'' (IntOpt 5) ''jpg'' ''thumbs'' None False
       = Some (msgs @ [Saved out], Some out))
   \<and> (\<exists>msgs. extract_frame
        \<lparr>env_open = (\<lambda>p. Some \<lparr>cap_frame_count = 0, cap_fps = 30\<rparr>),
         env_read = (\<lambda>p i. True), env_exists = (\<lambda>p. False),
         env_imwrite = (\<lambda>p. Some OtherError), env_re_search = no_regex\<rparr>
        ''videos/clip.mp4'' (IntOpt 5) ''jpg'' ''thumbs'' None False
       = Some (msgs @ [ErrorOccurred OtherError], None))"
  using resolved_index_range [of "\<lparr>cap_frame_count = 100, cap_fps = 30\<rparr>"
      "StrOpt ''t+1m30s''" "\<lparr>cap_frame_count = 0, cap_fps = 30\<rparr>" 5
      "\<lparr>env_open = (\<lambda>p. Some \<lparr>cap_frame_count = 0, cap_fps = 30\<rparr>),
         env_read = (\<lambda>p i. False), env_exists = (\<lambda>p. False), env_imwrite = (\<lambda>p. None),
         env_re_search = no_regex\<rparr>"
      "''videos/clip.mp4''" "''jpg''" "''thumbs''" None False
      "\<lparr>env_open = (\<lambda>p. Some \<lparr>cap_frame_count = 0, cap_fps = 30\<rparr>),
         env_read = (\<lambda>p i. True), env_exists = (\<lambda>p. False), env_imwrite = (\<lambda>p. None),
         env_re_search = no_regex\<rparr>"
      "\<lparr>env_open = (\<lambda>p. Some \<lparr>cap_frame_count = 0, cap_fps = 30\<rparr>),
         env_read = (\<lambda>p i. True), env_exists = (\<lambda>p. False),
         env_imwrite = (\<lambda>p. Some OtherError), env_re_search = no_regex\<rparr>"
      OtherError]
  by simp

subsection \<open>Parsing a relative time\<close>















subsection \<open>Name templates\<close>

lemma replace_scan_no_brace:
  "CHR ''{'' \<notin> set s \<Longrightarrow> replace_scan (CHR ''{'' # k) v s = s"
  by (induction s) auto


lemma py_replace_brace: "py_replace (CHR ''{'' # k) v s = replace_scan (CHR ''{'' # k) v s"
  by (simp add: py_replace_def)

lemma match_dotted_brace: "match_dotted s = Some g \<Longrightarrow> \<exists>r. s = CHR ''{'' # r"
  by (auto simp: match_dotted_def Let_def split: list.splits if_splits)

lemma match_colon_brace: "match_colon s = Some g \<Longrightarrow> \<exists>r. s = CHR ''{'' # r"
  by (auto simp: match_colon_def Let_def split: list.splits if_splits)

lemma match_call_brace: "match_call name s = Some g \<Longrightarrow> \<exists>r. s = CHR ''{'' # r"
  by (cases s) (auto simp: match_call_def Let_def split: if_splits)

lemma re_sub_no_brace:
  assumes m: "\<And>x g. m x = Some g \<Longrightarrow> \<exists>r. x = CHR ''{'' # r"
  shows "CHR ''{'' \<notin> set s \<Longrightarrow> re_sub m repl s = Inr s"
proof (induction s)
  case Nil
  then show ?case by simp
next
  case (Cons c cs)
  have "m (c # cs) = None"
  proof (cases "m (c # cs)")
    case (Some g)
    from m [OF Some] Cons.prems show ?thesis by auto
  qed simp
  with Cons show ?case by simp
qed

lemma digit_char_code: "k < 10 \<Longrightarrow> of_char (char_of (48 + k :: nat)) = (48 + k :: nat)"
  by (simp only: of_char_of) simp




text \<open>The digits of \<^verbatim>\<open>str(n)\<close> and of \<^verbatim>\<open>f"{n:06d}"\<close>.\<close>

lemma char_of_48: "char_of (48 :: nat) = CHR ''0''"
  by code_simp

lemma digits_of_zero: "digits_of w 0 = replicate w CHR ''0''"
  by (simp add: char_of_48 map_replicate_const)

lemma digits_of_Suc:
  assumes "1 \<le> w"
  shows "digits_of (Suc w) n = digits_of w (n div 10) @ [char_of (48 + n mod 10)]"
proof -
  have "n div 10 ^ (w - i) = n div 10 div 10 ^ (w - 1 - i)" if "i < w" for i
  proof -
    from that have "w - i = Suc (w - 1 - i)" by simp
    then show ?thesis by (simp add: div_mult2_eq)
  qed
  then show ?thesis by simp
qed

lemma pad_digits:
  "1 \<le> w \<Longrightarrow> n < 10 ^ w \<Longrightarrow>
     replicate (w - length (str_nat n)) CHR ''0'' @ str_nat n = digits_of w n"
proof (induction w arbitrary: n)
  case 0
  then show ?case by simp
next
  case (Suc w)
  show ?case
  proof (cases "w = 0")
    case True
    with Suc.prems show ?thesis by (simp add: str_nat.simps [of n])
  next
    case False
    then have w: "1 \<le> w" by simp
    show ?thesis
    proof (cases "n < 10")
      case True
      then show ?thesis
        using digits_of_zero [of w]
        by (simp only: digits_of_Suc [OF w] str_nat.simps [of n]) simp
    next
      case False
      from Suc.prems have "n div 10 < 10 ^ w" by (simp add: less_mult_imp_div_less)
      from Suc.IH [OF w this] False show ?thesis
        by (simp only: digits_of_Suc [OF w] str_nat.simps [of n])
          (simp add: Suc_diff_le)
    qed
  qed
qed

lemma str_nat_bound: "n < 10 ^ length (str_nat n)"
proof (induction n rule: str_nat.induct)
  case (1 n)
  show ?case
  proof (cases "n < 10")
    case True
    then show ?thesis by (simp add: str_nat.simps [of n])
  next
    case False
    with 1 have "n div 10 < 10 ^ length (str_nat (n div 10))" by simp
    then have "n < 10 * 10 ^ length (str_nat (n div 10))" by simp
    with False show ?thesis by (simp add: str_nat.simps [of n])
  qed
qed

lemma str_nat_length:
  assumes "1 \<le> w" "10 ^ (w - 1) \<le> n" "n < 10 ^ w"
  shows "length (str_nat n) = w"
proof -
  have "length (replicate (w - length (str_nat n)) CHR ''0'' @ str_nat n) = w"
    by (simp only: pad_digits [OF assms(1,3)]) simp
  then have le: "length (str_nat n) \<le> w" by simp
  have "(10::nat) ^ (w - 1) < 10 ^ length (str_nat n)"
    using assms(2) str_nat_bound [of n] by (rule le_less_trans)
  then have "w - 1 < length (str_nat n)" by simp
  with le show ?thesis by simp
qed

lemma str_nat_digits:
  assumes "1 \<le> w" "10 ^ (w - 1) \<le> n" "n < 10 ^ w"
  shows "str_nat n = digits_of w n"
  using pad_digits [OF assms(1,3)] str_nat_length [OF assms] by simp







lemma directives_no_brace:
  assumes "CHR ''{'' \<notin> set p"
  shows "re_sub match_dotted repl p = Inr p" "re_sub match_colon repl p = Inr p"
    "re_sub (match_call name) repl p = Inr p"
  using assms re_sub_no_brace [of match_dotted p repl] match_dotted_brace
    re_sub_no_brace [of match_colon p repl] match_colon_brace
    re_sub_no_brace [of "match_call name" p repl] match_call_brace
  by blast+




lemma takeWhile_not_mem:
  "c \<notin> set xs \<Longrightarrow> takeWhile (\<lambda>x. x \<noteq> c) (xs @ ys) = xs @ takeWhile (\<lambda>x. x \<noteq> c) ys"
  by (induction xs) auto

lemma dropWhile_not_mem:
  "c \<notin> set xs \<Longrightarrow> dropWhile (\<lambda>x. x \<noteq> c) (xs @ ys) = dropWhile (\<lambda>x. x \<noteq> c) ys"
  by (induction xs) auto

lemma split_on_hd: "\<exists>ps. split_on sep s = takeWhile (\<lambda>c. c \<noteq> sep) s # ps"
  by (induction s) (auto split: list.splits)

lemma slice_arg_None:
  assumes "takeWhile (\<lambda>c. c \<noteq> CHR '':'') command \<noteq> ''n''"
  shows "slice_arg command = None"
proof -
  obtain ps where "split_on CHR '':'' command = takeWhile (\<lambda>c. c \<noteq> CHR '':'') command # ps"
    using split_on_hd by blast
  with assms show ?thesis
    by (cases ps) (simp_all add: slice_arg_def)
qed

lemma split_once_pair:
  "sep \<notin> set a \<Longrightarrow> split_once sep (a @ sep # b) = [a, b]"
  by (simp add: split_once_def takeWhile_not_mem dropWhile_not_mem)

lemma word_char_facts:
  "word_char CHR ''n''" "\<not> word_char CHR ''.''" "\<not> word_char CHR ''(''"
  "word_char CHR ''r''" "word_char CHR ''e''" "word_char CHR ''p''" "word_char CHR ''l''"
  "word_char CHR ''a''" "word_char CHR ''c''"
  by (simp_all add: word_char_def char_isalpha_def char_isdigit_def char_isdecimal_def
      code_point_def)

lemma re_sub_unmatched_head:
  assumes "m (c # cs) = None" "re_sub m repl cs = Inr cs"
  shows "re_sub m repl (c # cs) = Inr (c # cs)"
  using assms by simp

lemma re_sub_matched_whole:
  assumes "m (c # cs) = Some g" "repl g = Inr v" "length cs = length g + 1"
  shows "re_sub m repl (c # cs) = Inr v"
  using assms by simp

lemma replace_scan_unmatched_head:
  assumes "\<not> prefix (CHR ''{'' # k) (c # cs)" "CHR ''{'' \<notin> set cs"
  shows "replace_scan (CHR ''{'' # k) v (c # cs) = c # cs"
  using assms by (auto simp: replace_scan_no_brace)

lemma tpl_token:
  assumes "CHR ''{'' \<notin> set old" "CHR ''{'' \<notin> set new"
    and "\<not> prefix (CHR ''{'' # k) (CHR ''{'' # replace_tail old new)"
  shows "py_replace (CHR ''{'' # k) v (CHR ''{'' # replace_tail old new)
    = CHR ''{'' # replace_tail old new"
  unfolding py_replace_brace
  using assms by (intro replace_scan_unmatched_head) simp_all

lemma tpl_tokens:
  assumes "CHR ''{'' \<notin> set old" "CHR ''{'' \<notin> set new"
  shows "substitute_tokens (replacements s f t) (CHR ''{'' # replace_tail old new)
     = CHR ''{'' # replace_tail old new"
proof -
  have k: "py_replace ''{n}'' v (CHR ''{'' # replace_tail old new) = CHR ''{'' # replace_tail old new"
    "py_replace ''{f}'' v (CHR ''{'' # replace_tail old new) = CHR ''{'' # replace_tail old new"
    "py_replace ''{t}'' v (CHR ''{'' # replace_tail old new) = CHR ''{'' # replace_tail old new"
    "py_replace ''{n.base}'' v (CHR ''{'' # replace_tail old new) = CHR ''{'' # replace_tail old new"
    "py_replace ''{n.digits}'' v (CHR ''{'' # replace_tail old new) = CHR ''{'' # replace_tail old new"
    "py_replace ''{n.letters}'' v (CHR ''{'' # replace_tail old new) = CHR ''{'' # replace_tail old new"
    for v
    by (rule tpl_token [OF assms], simp)+
  show ?thesis
    by (simp only: substitute_tokens_def replacements_def foldl.simps prod.case k)
qed

lemma tpl_dotted: "match_dotted (CHR ''{'' # replace_tail old new) = None"
  by (simp add: match_dotted_def word_char_facts)

lemma tpl_colon: "match_colon (CHR ''{'' # replace_tail old new) = None"
  by (simp add: match_colon_def word_char_facts)

lemma tpl_match: "match_call ''n.match'' (CHR ''{'' # replace_tail old new) = None"
  by (simp add: match_call_def)

lemma tpl_replace:
  assumes oc: "CHR ''}'' \<notin> set old" and nc: "CHR ''}'' \<notin> set new"
  shows "match_call ''n.replace'' (CHR ''{'' # replace_tail old new)
   = Some (''n.replace('' @ old @ '','' @ new @ '')'')"
proof -
  have tw: "takeWhile (\<lambda>x. x \<noteq> CHR ''}'') (old @ '','' @ new @ '')}'') = old @ '','' @ new @ '')''"
    using takeWhile_not_mem [OF oc, of "'','' @ new @ '')}''"]
      takeWhile_not_mem [OF nc, of "'')}''"] by simp
  have dw: "dropWhile (\<lambda>x. x \<noteq> CHR ''}'') (old @ '','' @ new @ '')}'') = ''}''"
    using dropWhile_not_mem [OF oc, of "'','' @ new @ '')}''"]
      dropWhile_not_mem [OF nc, of "'')}''"] by simp
  show ?thesis
    using tw dw by (simp add: match_call_def)
qed

lemma tpl_command:
  assumes comma: "CHR '','' \<notin> set old"
  shows "regex_replacer re s (''n.replace('' @ old @ '','' @ new @ '')'')
    = Inr (py_replace old new s)"
proof -
  have "slice_arg (''n.replace('' @ old @ '','' @ new @ '')'') = None"
    by (rule slice_arg_None) simp
  moreover have "split_once CHR '','' (old @ '','' @ new) = [old, new]"
    using split_once_pair [OF comma, of new] by simp
  ultimately show ?thesis
    by (simp add: regex_replacer_def butlast_append)
qed

lemma tpl_render:
  assumes ob: "CHR ''{'' \<notin> set old" and nb: "CHR ''{'' \<notin> set new"
    and oc: "CHR ''}'' \<notin> set old" and nc: "CHR ''}'' \<notin> set new"
    and comma: "CHR '','' \<notin> set old"
  shows "render_try re s (CHR ''{'' # replace_tail old new) f t = Inr (py_replace old new s)"
proof -
  let ?P = "CHR ''{'' # replace_tail old new"
  let ?repl = "regex_replacer re s"
  have tail: "CHR ''{'' \<notin> set (replace_tail old new)"
    using ob nb by simp
  have d: "re_sub match_dotted ?repl ?P = Inr ?P"
    using tpl_dotted directives_no_brace(1) [OF tail] by (rule re_sub_unmatched_head)
  have c: "re_sub match_colon ?repl ?P = Inr ?P"
    using tpl_colon directives_no_brace(2) [OF tail] by (rule re_sub_unmatched_head)
  have m: "re_sub (match_call ''n.match'') ?repl ?P = Inr ?P"
    using tpl_match directives_no_brace(3) [OF tail] by (rule re_sub_unmatched_head)
  have r: "re_sub (match_call ''n.replace'') ?repl ?P = Inr (py_replace old new s)"
    using tpl_replace [OF oc nc] tpl_command [OF comma]
    by (rule re_sub_matched_whole) simp
  show ?thesis
    unfolding render_try_def Let_def tpl_tokens [OF ob nb] by (simp only: d c m r sum.case)
qed

lemma py_replace_single:
  "py_replace [a] new s = concat (map (\<lambda>c. if c = a then new else [c]) s)"
  by (induction s) (auto simp: py_replace_def)




text \<open>
  Claim C1.  The claim: the replace directive replaces only the first occurrence of
  \<open>old\<close>, so that \<open>{n.replace(a,X)}\<close> renders \<open>banana\<close> as \<open>bXnana\<close>.  The directive
  calls \<^verbatim>\<open>original.replace(args[0], args[1])\<close>, which replaces every occurrence: the
  template renders to \<open>bXnXnX\<close>.
\<close>

theorem replace_first_only_counterexample:
  "apply_regex_pattern no_regex ''banana'' ''{n.replace(a,X)}'' 0 ''0.00s'' = (''bXnXnX'', [])
   \<and> fst (apply_regex_pattern no_regex ''banana'' ''{n.replace(a,X)}'' 0 ''0.00s'')
       \<noteq> ''bXnana''"
  by code_simp

text \<open>Cutting a text at the occurrences of \<open>old\<close>.\<close>

lemma sublist_prefix_append:
  assumes "prefix old (a @ b)" "length old \<le> length a"
  shows "sublist old a"
proof -
  from assms(1) obtain r where r: "a @ b = old @ r" by (auto simp: prefix_def)
  with assms(2) have "prefix old a"
    by (metis append_eq_append_conv_if prefixI take_is_prefix prefix_def)
  then show ?thesis by (rule prefix_imp_sublist)
qed

lemma replace_scan_piece:
  assumes "old \<noteq> []" "\<not> sublist old (p @ butlast old)"
  shows "replace_scan old new (p @ old @ rest) = p @ new @ replace_scan old new rest"
  using assms(2)
proof (induction p)
  case Nil
  obtain c cs where o: "old = c # cs" using assms(1) by (cases old) auto
  have "replace_scan old new (old @ rest) = new @ replace_scan old new (drop (length old) (old @ rest))"
    unfolding o by simp
  then show ?case by simp
next
  case (Cons c p)
  have ns: "\<not> sublist old (p @ butlast old)"
    using Cons.prems by (auto simp: sublist_Cons_right)
  have np: "\<not> prefix old (c # p @ old @ rest)"
  proof
    assume pre: "prefix old (c # p @ old @ rest)"
    have split: "c # p @ old @ rest = ((c # p) @ butlast old) @ (last old # rest)"
      using assms(1) by simp
    have "length old \<le> length ((c # p) @ butlast old)" by simp
    with pre have "sublist old ((c # p) @ butlast old)"
      unfolding split by (rule sublist_prefix_append)
    with Cons.prems show False by simp
  qed
  from np Cons.IH [OF ns] show ?case by simp
qed

lemma replace_scan_none:
  assumes "\<not> sublist old q"
  shows "replace_scan old new q = q"
  using assms
proof (induction q)
  case Nil
  then show ?case by simp
next
  case (Cons c q)
  then show ?case by (auto simp: sublist_Cons_right)
qed

lemma replace_scan_pieces:
  assumes "old \<noteq> []" "\<forall>p\<in>set ps. \<not> sublist old (p @ butlast old)" "\<not> sublist old q"
  shows "replace_scan old new (concat (map (\<lambda>p. p @ old) ps) @ q)
    = concat (map (\<lambda>p. p @ new) ps) @ q"
  using assms(2)
proof (induction ps)
  case Nil
  then show ?case by (simp add: replace_scan_none [OF assms(3)])
next
  case (Cons p ps)
  then show ?case
    using replace_scan_piece [OF assms(1), of p new "concat (map (\<lambda>p. p @ old) ps) @ q"]
    by simp
qed

lemma pieces_exist:
  fixes old s :: string
  assumes "old \<noteq> []"
  shows "\<exists>ps q. s = concat (map (\<lambda>p. p @ old) ps) @ q
    \<and> (\<forall>p\<in>set ps. \<not> sublist old (p @ butlast old)) \<and> \<not> sublist old q"
proof (induction "length s" arbitrary: s rule: less_induct)
  case less
  show ?case
  proof (cases s)
    case Nil
    have "s = concat (map (\<lambda>p. p @ old) []) @ [] \<and> (\<forall>p\<in>set ([]::string list). \<not> sublist old (p @ butlast old))
      \<and> \<not> sublist old []"
      using Nil assms by simp
    then show ?thesis by blast
  next
    case (Cons c cs)
    show ?thesis
    proof (cases "prefix old s")
      case True
      then obtain rest where rest: "s = old @ rest" by (auto simp: prefix_def)
      with assms have "length rest < length s" by simp
      from less [OF this] obtain ps q where d: "rest = concat (map (\<lambda>p. p @ old) ps) @ q"
        "\<forall>p\<in>set ps. \<not> sublist old (p @ butlast old)" "\<not> sublist old q"
        by blast
      have short: "\<not> sublist old ([] @ butlast old)"
      proof
        assume "sublist old ([] @ butlast old)"
        then have "sublist old (butlast old)" by simp
        then have "length old \<le> length (butlast old)"
          by (rule sublist_length_le)
        moreover have "length (butlast old) < length old"
          using assms by (cases old) simp_all
        ultimately show False by linarith
      qed
      have "s = concat (map (\<lambda>p. p @ old) ([] # ps)) @ q
        \<and> (\<forall>p\<in>set ([] # ps). \<not> sublist old (p @ butlast old)) \<and> \<not> sublist old q"
        using rest d short by simp
      then show ?thesis by blast
    next
      case False
      have "length cs < length s" using Cons by simp
      from less [OF this] obtain ps q where d: "cs = concat (map (\<lambda>p. p @ old) ps) @ q"
        "\<forall>p\<in>set ps. \<not> sublist old (p @ butlast old)" "\<not> sublist old q"
        by blast
      show ?thesis
      proof (cases ps)
        case Nil
        have "s = concat (map (\<lambda>p. p @ old) []) @ (c # q)
          \<and> (\<forall>p\<in>set ([]::string list). \<not> sublist old (p @ butlast old))
          \<and> \<not> sublist old (c # q)"
          using d Nil Cons False by (simp add: sublist_Cons_right)
        then show ?thesis by blast
      next
        case (Cons p ps')
        have np: "\<not> prefix old (c # p @ butlast old)"
        proof
          assume "prefix old (c # p @ butlast old)"
          moreover have "prefix (c # p @ butlast old) s"
            using d(1) Cons \<open>s = c # cs\<close> assms
            by (simp add: prefix_def) (metis append_butlast_last_id append_Cons append_assoc)
          ultimately have "prefix old s" by (rule prefix_order.trans)
          with False show False by simp
        qed
        have "s = concat (map (\<lambda>p. p @ old) ((c # p) # ps')) @ q
          \<and> (\<forall>p\<in>set ((c # p) # ps'). \<not> sublist old (p @ butlast old))
          \<and> \<not> sublist old q"
          using d Cons \<open>s = c # cs\<close> np by (simp add: sublist_Cons_right)
        then show ?thesis by blast
      qed
    qed
  qed
qed

text \<open>
  Claim C1, amended.  For every name \<open>s\<close> and all arguments \<open>old\<close> and \<open>new\<close> without
  braces, \<open>old\<close> without a comma, the directive \<open>{n.replace(old,new)}\<close> renders to \<open>s\<close>
  with every occurrence of \<open>old\<close> replaced by \<open>new\<close>, the replacement being literal: a
  name cut at its occurrences of \<open>old\<close>, found from left to right without overlap, as
  \<open>p1 old p2 old ... q\<close> renders to \<open>p1 new p2 new ... q\<close>, and every name can be cut in
  this way.  With an empty \<open>old\<close>, \<open>new\<close> is put before every character and at the end.
\<close>

theorem replace_directive:
  assumes "CHR ''{'' \<notin> set old" "CHR ''{'' \<notin> set new"
    "CHR ''}'' \<notin> set old" "CHR ''}'' \<notin> set new" "CHR '','' \<notin> set old"
  shows "apply_regex_pattern re s (''{n.replace('' @ old @ '','' @ new @ '')}'') f t
      = (py_replace old new s, [])
    \<and> (old \<noteq> [] \<and> (\<forall>p\<in>set ps. \<not> sublist old (p @ butlast old)) \<and> \<not> sublist old q \<longrightarrow>
         apply_regex_pattern re (concat (map (\<lambda>p. p @ old) ps) @ q)
           (''{n.replace('' @ old @ '','' @ new @ '')}'') f t
         = (concat (map (\<lambda>p. p @ new) ps) @ q, []))
    \<and> (old \<noteq> [] \<longrightarrow>
         (\<exists>ps q. s = concat (map (\<lambda>p. p @ old) ps) @ q
            \<and> (\<forall>p\<in>set ps. \<not> sublist old (p @ butlast old)) \<and> \<not> sublist old q))
    \<and> (old = [] \<longrightarrow>
         apply_regex_pattern re s (''{n.replace('' @ old @ '','' @ new @ '')}'') f t
         = (new @ concat (map (\<lambda>c. c # new) s), []))"
proof -
  have render: "apply_regex_pattern re s' (''{n.replace('' @ old @ '','' @ new @ '')}'') f t
      = (py_replace old new s', [])" for s'
    using tpl_render [OF assms, of re s' f t] by (simp add: apply_regex_pattern_def)
  have pieces: "old \<noteq> [] \<and> (\<forall>p\<in>set ps. \<not> sublist old (p @ butlast old)) \<and> \<not> sublist old q \<longrightarrow>
         apply_regex_pattern re (concat (map (\<lambda>p. p @ old) ps) @ q)
           (''{n.replace('' @ old @ '','' @ new @ '')}'') f t
         = (concat (map (\<lambda>p. p @ new) ps) @ q, [])"
    using replace_scan_pieces [of old ps q new]
    by (simp only: render) (simp add: py_replace_def)
  have cut: "old \<noteq> [] \<longrightarrow>
         (\<exists>ps q. s = concat (map (\<lambda>p. p @ old) ps) @ q
            \<and> (\<forall>p\<in>set ps. \<not> sublist old (p @ butlast old)) \<and> \<not> sublist old q)"
    using pieces_exist [of old s] by blast
  have empty: "old = [] \<longrightarrow>
         apply_regex_pattern re s (''{n.replace('' @ old @ '','' @ new @ '')}'') f t
         = (new @ concat (map (\<lambda>c. c # new) s), [])"
    by (simp only: render) (simp add: py_replace_def)
  from render [of s] pieces cut empty show ?thesis by blast
qed

theorem replace_directive_witness:
  "CHR ''{'' \<notin> set ''an'' \<and> CHR ''{'' \<notin> set ''X'' \<and> CHR ''}'' \<notin> set ''an''
   \<and> CHR ''}'' \<notin> set ''X'' \<and> CHR '','' \<notin> set ''an'' \<and> ''an'' \<noteq> []
   \<and> \<not> sublist ''an'' (''b'' @ butlast ''an'') \<and> \<not> sublist ''an'' ([] @ butlast ''an'')
   \<and> \<not> sublist ''an'' ''a''
   \<and> apply_regex_pattern no_regex ''banana'' ''{n.replace(an,X)}'' 0 ''0.00s'' = (''bXXa'', [])
   \<and> apply_regex_pattern no_regex ''ab'' ''{n.replace(,X)}'' 0 ''0.00s'' = (''XaXbX'', [])"
proof -
  have n1: "\<not> sublist ''an'' (''b'' @ butlast ''an'')"
    by (simp add: sublist_Cons_right)
  have n2: "\<not> sublist ''an'' ([] @ butlast ''an'')"
    by (simp add: sublist_Cons_right)
  have n3: "\<not> sublist ''an'' ''a''"
    by (simp add: sublist_Cons_right)
  have cut: "''banana'' = concat (map (\<lambda>p. p @ ''an'') [''b'', []]) @ ''a''"
    by simp
  have "apply_regex_pattern no_regex (concat (map (\<lambda>p. p @ ''an'') [''b'', []]) @ ''a'')
      (''{n.replace('' @ ''an'' @ '','' @ ''X'' @ '')}'') 0 ''0.00s''
      = (concat (map (\<lambda>p. p @ ''X'') [''b'', []]) @ ''a'', [])"
    using n1 n2 n3
      replace_directive [where old = "''an''" and new = "''X''" and ps = "[''b'', []]"
        and q = "''a''" and re = no_regex and f = 0 and t = "''0.00s''" and s = "''banana''"]
    by (simp add: py_replace_def)
  then have a: "apply_regex_pattern no_regex ''banana'' ''{n.replace(an,X)}'' 0 ''0.00s''
      = (''bXXa'', [])"
    by simp
  have b: "apply_regex_pattern no_regex ''ab'' ''{n.replace(,X)}'' 0 ''0.00s'' = (''XaXbX'', [])"
    using replace_directive [where old = "[]" and new = "''X''" and ps = "[]"
        and q = "[]" and re = no_regex and f = 0 and t = "''0.00s''" and s = "''ab''"]
    by (simp add: py_replace_def)
  from n1 n2 n3 a b show ?thesis by simp
qed

text \<open>
  Claim C6.  Rendering always returns a name: the value of the \<^verbatim>\<open>try\<close> block when it
  raises nothing, and otherwise the original name followed by \<open>_error\<close>, with one message.
  An expression that the engine rejects inside \<open>{n.match(...)}\<close> and a replace directive
  without a comma both end in the second way.
\<close>

theorem render_total:
  "((\<exists>name. render_try re orig pat f t = Inr name
        \<and> apply_regex_pattern re orig pat f t = (name, []))
    \<or> (\<exists>e. render_try re orig pat f t = Inl e
        \<and> apply_regex_pattern re orig pat f t = (orig @ ''_error'', [PatternError e])))
   \<and> (re ''('' orig = Inl err \<longrightarrow>
        apply_regex_pattern re orig ''{n.match(()}'' f t
          = (orig @ ''_error'', [PatternError err]))
   \<and> apply_regex_pattern re orig ''{n.replace(abc)}'' f t
       = (orig @ ''_error'', [PatternError IndexError])"
proof -
  have total: "(\<exists>name. render_try re orig pat f t = Inr name
        \<and> apply_regex_pattern re orig pat f t = (name, []))
    \<or> (\<exists>e. render_try re orig pat f t = Inl e
        \<and> apply_regex_pattern re orig pat f t = (orig @ ''_error'', [PatternError e]))"
    by (cases "render_try re orig pat f t") (simp_all add: apply_regex_pattern_def)
  have invalid: "re ''('' orig = Inl err \<longrightarrow>
        apply_regex_pattern re orig ''{n.match(()}'' f t
          = (orig @ ''_error'', [PatternError err])"
    by (simp add: apply_regex_pattern_def render_try_def substitute_tokens_def
        replacements_def py_replace_def match_dotted_def match_colon_def match_call_def
        regex_replacer_def slice_arg_def word_char_def char_isalpha_def char_isdigit_def
        char_isdecimal_def code_point_def Let_def)
  have no_comma: "apply_regex_pattern re orig ''{n.replace(abc)}'' f t
       = (orig @ ''_error'', [PatternError IndexError])"
    by (simp add: apply_regex_pattern_def render_try_def substitute_tokens_def
        replacements_def py_replace_def match_dotted_def match_colon_def match_call_def
        regex_replacer_def slice_arg_def split_once_def word_char_def char_isalpha_def
        char_isdigit_def char_isdecimal_def code_point_def Let_def)
  from total invalid no_comma show ?thesis by blast
qed

theorem render_total_witness:
  "no_regex ''('' ''clip'' = Inl ReError
   \<and> apply_regex_pattern no_regex ''clip'' ''{n.match(()}'' 42 ''1.40s''
       = (''clip_error'', [PatternError ReError])"
  using render_total [of no_regex "''clip''" "''{n}''" 42 "''1.40s''" ReError]
  by (simp add: no_regex_def)


subsection \<open>Path de-duplication\<close>

lemma digit_value_char: "k < 10 \<Longrightarrow> digit_value (char_of (48 + k)) = k"
  by (simp add: digit_value_def code_point_def digit_char_code)

lemma decimal_value_snoc: "decimal_value (xs @ [c]) = 10 * decimal_value xs + digit_value c"
  by (simp add: decimal_value_def)

lemma decimal_value_str_nat: "decimal_value (str_nat n) = n"
proof (induction n rule: str_nat.induct)
  case (1 n)
  show ?case
  proof (cases "n < 10")
    case True
    then show ?thesis
      by (simp add: str_nat.simps [of n] decimal_value_def digit_value_char)
  next
    case False
    then show ?thesis
      using 1 by (simp add: str_nat.simps [of n] decimal_value_snoc digit_value_char)
  qed
qed

lemma str_nat_inj: "str_nat a = str_nat b \<Longrightarrow> a = b"
  by (metis decimal_value_str_nat)

lemma candidate_inj: "inj (candidate base ext)"
  by (rule injI) (simp add: candidate_def str_nat_inj)

lemma finite_candidates:
  assumes "finite {p. exists p}"
  shows "finite {k. exists (candidate base ext k)}"
proof -
  have "{k. exists (candidate base ext k)} = candidate base ext -` {p. exists p}"
    by auto
  then show ?thesis
    using finite_vimageI [OF assms candidate_inj [of base ext]] by simp
qed

lemma avoid_loop_free:
  assumes "finite {k. c \<le> k \<and> exists (candidate base ext k)}"
  shows "\<exists>r. avoid_loop exists base ext path c = Some r \<and> \<not> exists r \<and>
    (if exists path
     then \<exists>k\<ge>c. r = candidate base ext k \<and> (\<forall>j. c \<le> j \<and> j < k \<longrightarrow> exists (candidate base ext j))
     else r = path)"
  using assms
proof (induction "card {k. c \<le> k \<and> exists (candidate base ext k)}" arbitrary: c path
    rule: less_induct)
  case less
  let ?A = "\<lambda>c. {k. c \<le> k \<and> exists (candidate base ext k)}"
  show ?case
  proof (cases "exists path")
    case False
    then show ?thesis by (simp add: avoid_loop.simps [of exists base ext path])
  next
    case True
    then have step: "avoid_loop exists base ext path c =
        avoid_loop exists base ext (candidate base ext c) (c + 1)"
      by (simp add: avoid_loop.simps [of exists base ext path])
    show ?thesis
    proof (cases "exists (candidate base ext c)")
      case False
      then have "avoid_loop exists base ext (candidate base ext c) (c + 1)
          = Some (candidate base ext c)"
        by (simp add: avoid_loop.simps [of exists base ext "candidate base ext c"])
      with step True False show ?thesis by auto
    next
      case ex: True
      have sub: "?A (c + 1) = ?A c - {c}" by auto
      have mem: "c \<in> ?A c" using ex by simp
      have fin: "finite (?A (c + 1))" using less.prems sub by simp
      have "card (?A (c + 1)) < card (?A c)"
        unfolding sub using less.prems mem by (rule card_Diff1_less)
      from less.hyps [OF this fin, of "candidate base ext c"] ex
      obtain r k where r: "avoid_loop exists base ext (candidate base ext c) (c + 1) = Some r"
        "\<not> exists r" "c + 1 \<le> k" "r = candidate base ext k"
        "\<forall>j. c + 1 \<le> j \<and> j < k \<longrightarrow> exists (candidate base ext j)"
        by auto
      have "\<forall>j. c \<le> j \<and> j < k \<longrightarrow> exists (candidate base ext j)"
      proof (intro allI impI)
        fix j assume j: "c \<le> j \<and> j < k"
        show "exists (candidate base ext j)"
        proof (cases "j = c")
          case True
          with ex show ?thesis by simp
        next
          case False
          with j r(5) show ?thesis by simp
        qed
      qed
      then have "\<exists>k'\<ge>c. r = candidate base ext k' \<and>
          (\<forall>j. c \<le> j \<and> j < k' \<longrightarrow> exists (candidate base ext j))"
        using r(3,4) by (intro exI [of _ k]) simp
      with r(1,2) step True show ?thesis
        by simp
    qed
  qed
qed

lemma splitext_out: "splitext ''out.jpg'' = (''out'', ''.jpg'')"
  by code_simp

lemma cand1: "candidate ''out'' ''.jpg'' (Suc 0) = ''out_1.jpg''"
  by code_simp

lemma cand2: "candidate ''out'' ''.jpg'' (Suc (Suc 0)) = ''out_2.jpg''"
  by code_simp

lemma ex_out1: "exists ''out.jpg'' \<Longrightarrow> \<not> exists ''out_1.jpg'' \<Longrightarrow> avoid_overwrite exists ''out.jpg'' = Some ''out_1.jpg''"
  by (simp add: avoid_overwrite_def splitext_out avoid_loop.simps [of exists _ _ "''out.jpg''"]
     avoid_loop.simps [of exists _ _ "''out_1.jpg''"] cand1)

lemma ex_out2: "exists ''out.jpg'' \<Longrightarrow> exists ''out_1.jpg'' \<Longrightarrow> \<not> exists ''out_2.jpg'' \<Longrightarrow> avoid_overwrite exists ''out.jpg'' = Some ''out_2.jpg''"
  by (simp add: avoid_overwrite_def splitext_out avoid_loop.simps [of exists _ _ "''out.jpg''"]
     avoid_loop.simps [of exists _ _ "''out_1.jpg''"] avoid_loop.simps [of exists _ _ "''out_2.jpg''"] cand1 cand2)

text \<open>What \<^verbatim>\<open>os.path.splitext\<close> returns: the extension of a file name that has a dot
  after a character that is not a dot, and no extension otherwise.\<close>

lemma takeWhile_all_append:
  assumes "\<forall>x\<in>set xs. P x" "ys = [] \<or> \<not> P (hd ys)"
  shows "takeWhile P (xs @ ys) = xs" "dropWhile P (xs @ ys) = ys"
  using assms by (induction xs) (auto simp: takeWhile_eq_Nil_iff dropWhile_eq_self_iff)

lemma basename_dirpart_append:
  assumes "d = [] \<or> last d = CHR ''/''" "CHR ''/'' \<notin> set n"
  shows "basename (d @ n) = n" "dirpart (d @ n) = d"
proof -
  have a: "\<forall>x\<in>set (rev n). x \<noteq> CHR ''/''" using assms(2) by auto
  have b: "rev d = [] \<or> \<not> hd (rev d) \<noteq> CHR ''/''"
    using assms(1) by (auto simp: hd_rev)
  show "basename (d @ n) = n"
    using takeWhile_all_append(1) [OF a b] by (simp add: basename_def)
  show "dirpart (d @ n) = d"
    using takeWhile_all_append(2) [OF a b] by (simp add: dirpart_def)
qed

lemma splitext_ext:
  assumes d: "d = [] \<or> last d = CHR ''/''" and s: "CHR ''/'' \<notin> set (stem @ e)"
    and e: "CHR ''.'' \<notin> set e" and c: "\<exists>c\<in>set stem. c \<noteq> CHR ''.''"
  shows "splitext (d @ stem @ ''.'' @ e) = (d @ stem, ''.'' @ e)"
proof -
  let ?name = "stem @ ''.'' @ e"
  have n: "CHR ''/'' \<notin> set ?name" using s by simp
  have bn: "basename (d @ ?name) = ?name" and dp: "dirpart (d @ ?name) = d"
    using basename_dirpart_append [OF d n] by simp_all
  have a: "\<forall>x\<in>set (rev e). x \<noteq> CHR ''.''" using e by auto
  have "takeWhile (\<lambda>c. c \<noteq> CHR ''.'') (rev e @ (CHR ''.'' # rev stem)) = rev e"
    by (rule takeWhile_all_append(1) [OF a]) simp
  then have tw: "takeWhile (\<lambda>c. c \<noteq> CHR ''.'') (rev ?name) = rev e" by simp
  show ?thesis
    using c by (simp only: splitext_def bn dp tw Let_def) auto
qed

lemma splitext_no_ext:
  assumes d: "d = [] \<or> last d = CHR ''/''" and dots: "set dots \<subseteq> {CHR ''.''}"
    and e: "CHR ''.'' \<notin> set e" and s: "CHR ''/'' \<notin> set e"
  shows "splitext (d @ dots @ e) = (d @ dots @ e, [])"
proof -
  let ?name = "dots @ e"
  have n: "CHR ''/'' \<notin> set ?name" using s dots by auto
  have bn: "basename (d @ ?name) = ?name"
    using basename_dirpart_append(1) [OF d n] .
  have a: "\<forall>x\<in>set (rev e). x \<noteq> CHR ''.''" using e by auto
  have b: "rev dots = [] \<or> \<not> hd (rev dots) \<noteq> CHR ''.''"
    using dots by (cases "rev dots") auto
  have "takeWhile (\<lambda>c. c \<noteq> CHR ''.'') (rev e @ rev dots) = rev e"
    by (rule takeWhile_all_append(1) [OF a b])
  then have tw: "takeWhile (\<lambda>c. c \<noteq> CHR ''.'') (rev ?name) = rev e" by simp
  have "\<not> (\<exists>c\<in>set (take (length ?name - length (CHR ''.'' # rev (rev e))) ?name). c \<noteq> CHR ''.'')"
    using dots by (auto dest!: in_set_takeD)
  then show ?thesis
    by (simp only: splitext_def bn tw Let_def) auto
qed

lemma finite_names:
  assumes "finite {p. exists p}"
  shows "finite {k. exists (b @ ''_'' @ str_nat k @ x)}"
  using finite_candidates [OF assms, of b x] by (simp add: candidate_def)

lemma avoid_overwrite_result:
  assumes sp: "splitext path = (base, ext)"
    and fin: "finite {k. exists (base @ ''_'' @ str_nat k @ ext)}"
  shows "\<exists>r. avoid_overwrite exists path = Some r \<and> \<not> exists r \<and>
    (if exists path
     then \<exists>k\<ge>1. r = base @ ''_'' @ str_nat k @ ext
            \<and> (\<forall>j. 1 \<le> j \<and> j < k \<longrightarrow> exists (base @ ''_'' @ str_nat j @ ext))
     else r = path)"
proof -
  have "{k. 1 \<le> k \<and> exists (candidate base ext k)} \<subseteq> {k. exists (base @ ''_'' @ str_nat k @ ext)}"
    by (auto simp: candidate_def)
  with fin have "finite {k. 1 \<le> k \<and> exists (candidate base ext k)}"
    by (rule rev_finite_subset)
  from avoid_loop_free [OF this, of path] show ?thesis
    unfolding avoid_overwrite_def sp prod.case candidate_def .
qed

text \<open>
  Claim C9.  When only finitely many of the names \<open>base_1.ext\<close>, \<open>base_2.ext\<close>, ...
  exist (as in every directory), \<^verbatim>\<open>avoid_overwrite\<close> returns, and the path it returns
  does not exist: the requested path itself when that is free, and otherwise the path
  with \<open>_k\<close> put before its extension (at its end when it has no extension), for the first
  number \<open>k\<close> from 1 whose name is free, \<open>k\<close> being written in decimal.  With \<open>out.jpg\<close>
  present the result is \<open>out_1.jpg\<close>, and \<open>out_2.jpg\<close> when \<open>out_1.jpg\<close> is present too.
\<close>

theorem avoid_overwrite_free:
  "((d = [] \<or> last d = CHR ''/'') \<and> CHR ''/'' \<notin> set (stem @ e) \<and> CHR ''.'' \<notin> set e
      \<and> (\<exists>c\<in>set stem. c \<noteq> CHR ''.'')
      \<and> finite {k. exists (d @ stem @ ''_'' @ str_nat k @ ''.'' @ e)} \<longrightarrow>
      (\<exists>r. avoid_overwrite exists (d @ stem @ ''.'' @ e) = Some r \<and> \<not> exists r \<and>
         (if exists (d @ stem @ ''.'' @ e)
          then \<exists>k\<ge>1. r = d @ stem @ ''_'' @ str_nat k @ ''.'' @ e
                 \<and> (\<forall>j. 1 \<le> j \<and> j < k \<longrightarrow>
                       exists (d @ stem @ ''_'' @ str_nat j @ ''.'' @ e))
          else r = d @ stem @ ''.'' @ e)))
   \<and> ((d0 = [] \<or> last d0 = CHR ''/'') \<and> set dots \<subseteq> {CHR ''.''} \<and> CHR ''.'' \<notin> set e0
      \<and> CHR ''/'' \<notin> set e0
      \<and> finite {k. exists0 (d0 @ dots @ e0 @ ''_'' @ str_nat k)} \<longrightarrow>
      (\<exists>r. avoid_overwrite exists0 (d0 @ dots @ e0) = Some r \<and> \<not> exists0 r \<and>
         (if exists0 (d0 @ dots @ e0)
          then \<exists>k\<ge>1. r = d0 @ dots @ e0 @ ''_'' @ str_nat k
                 \<and> (\<forall>j. 1 \<le> j \<and> j < k \<longrightarrow> exists0 (d0 @ dots @ e0 @ ''_'' @ str_nat j))
          else r = d0 @ dots @ e0)))
   \<and> (1 \<le> w \<and> 10 ^ (w - 1) \<le> n \<and> n < 10 ^ w \<longrightarrow> str_nat n = digits_of w n)
   \<and> (ex1 ''out.jpg'' \<and> \<not> ex1 ''out_1.jpg'' \<longrightarrow>
        avoid_overwrite ex1 ''out.jpg'' = Some ''out_1.jpg'')
   \<and> (ex2 ''out.jpg'' \<and> ex2 ''out_1.jpg'' \<and> \<not> ex2 ''out_2.jpg'' \<longrightarrow>
        avoid_overwrite ex2 ''out.jpg'' = Some ''out_2.jpg'')"
proof -
  have with_ext: "\<exists>r. avoid_overwrite exists (d @ stem @ ''.'' @ e) = Some r \<and> \<not> exists r \<and>
         (if exists (d @ stem @ ''.'' @ e)
          then \<exists>k\<ge>1. r = d @ stem @ ''_'' @ str_nat k @ ''.'' @ e
                 \<and> (\<forall>j. 1 \<le> j \<and> j < k \<longrightarrow>
                       exists (d @ stem @ ''_'' @ str_nat j @ ''.'' @ e))
          else r = d @ stem @ ''.'' @ e)"
    if h: "(d = [] \<or> last d = CHR ''/'') \<and> CHR ''/'' \<notin> set (stem @ e) \<and> CHR ''.'' \<notin> set e
      \<and> (\<exists>c\<in>set stem. c \<noteq> CHR ''.'')
      \<and> finite {k. exists (d @ stem @ ''_'' @ str_nat k @ ''.'' @ e)}"
  proof -
    from h have sp: "splitext (d @ stem @ ''.'' @ e) = (d @ stem, ''.'' @ e)"
      by (intro splitext_ext) simp_all
    from h have fin: "finite {k. exists ((d @ stem) @ ''_'' @ str_nat k @ ''.'' @ e)}"
      by simp
    from avoid_overwrite_result [OF sp fin] show ?thesis
      by (simp only: append_assoc)
  qed
  have without_ext: "\<exists>r. avoid_overwrite exists0 (d0 @ dots @ e0) = Some r \<and> \<not> exists0 r \<and>
         (if exists0 (d0 @ dots @ e0)
          then \<exists>k\<ge>1. r = d0 @ dots @ e0 @ ''_'' @ str_nat k
                 \<and> (\<forall>j. 1 \<le> j \<and> j < k \<longrightarrow> exists0 (d0 @ dots @ e0 @ ''_'' @ str_nat j))
          else r = d0 @ dots @ e0)"
    if h: "(d0 = [] \<or> last d0 = CHR ''/'') \<and> set dots \<subseteq> {CHR ''.''} \<and> CHR ''.'' \<notin> set e0
      \<and> CHR ''/'' \<notin> set e0
      \<and> finite {k. exists0 (d0 @ dots @ e0 @ ''_'' @ str_nat k)}"
  proof -
    from h have sp: "splitext (d0 @ dots @ e0) = (d0 @ dots @ e0, [])"
      by (intro splitext_no_ext) simp_all
    from h have fin: "finite {k. exists0 ((d0 @ dots @ e0) @ ''_'' @ str_nat k @ [])}"
      by simp
    from avoid_overwrite_result [OF sp fin] show ?thesis
      by (simp only: append_assoc append_Nil2)
  qed
  have digits: "1 \<le> w \<and> 10 ^ (w - 1) \<le> n \<and> n < 10 ^ w \<longrightarrow> str_nat n = digits_of w n"
    using str_nat_digits [of w n] by blast
  from with_ext without_ext digits ex_out1 [of ex1] ex_out2 [of ex2] show ?thesis
    by blast
qed

theorem avoid_overwrite_free_witness:
  "finite {k. ''out'' @ ''_'' @ str_nat k @ ''.'' @ ''jpg'' \<in> set [''out.jpg'', ''out_1.jpg'']}
   \<and> avoid_overwrite (\<lambda>p. p \<in> set [''out.jpg'', ''out_1.jpg'']) ''out.jpg''
       = Some ''out_2.jpg''
   \<and> finite {k. ''thumbs/'' @ [] @ ''clip'' @ ''_'' @ str_nat k = ''thumbs/clip''}
   \<and> avoid_overwrite (\<lambda>p. p = ''thumbs/clip'') ''thumbs/clip'' = Some ''thumbs/clip_1''
   \<and> str_nat 12 = ''12''
   \<and> avoid_overwrite (\<lambda>p. p = ''out.jpg'') ''out.jpg'' = Some ''out_1.jpg''"
proof -
  have f1: "finite {k. ''out'' @ ''_'' @ str_nat k @ ''.'' @ ''jpg''
      \<in> set [''out.jpg'', ''out_1.jpg'']}"
    using finite_names [of "\<lambda>p. p \<in> set [''out.jpg'', ''out_1.jpg'']" "''out''" "''.jpg''"]
    by simp
  have f2: "finite {k. ''thumbs/'' @ [] @ ''clip'' @ ''_'' @ str_nat k = ''thumbs/clip''}"
    by simp
  have r1: "avoid_overwrite (\<lambda>p. p \<in> set [''out.jpg'', ''out_1.jpg'']) ''out.jpg''
      = Some ''out_2.jpg''"
    by code_simp
  have r2: "avoid_overwrite (\<lambda>p. p = ''thumbs/clip'') ''thumbs/clip'' = Some ''thumbs/clip_1''"
    by code_simp
  have r3: "str_nat 12 = ''12''"
    by code_simp
  have r4: "avoid_overwrite (\<lambda>p. p = ''out.jpg'') ''out.jpg'' = Some ''out_1.jpg''"
    by code_simp
  show ?thesis
    using f1 f2 r1 r2 r3 r4
      avoid_overwrite_free [where d = "[]" and stem = "''out''" and e = "''jpg''"
        and exists = "\<lambda>p. p \<in> set [''out.jpg'', ''out_1.jpg'']"
        and ?d0.0 = "''thumbs/''" and dots = "[]" and ?e0.0 = "''clip''"
        and exists0 = "\<lambda>p. p = ''thumbs/clip''" and w = 2 and n = 12
        and ?ex1.0 = "\<lambda>p. p = ''out.jpg''"
        and ?ex2.0 = "\<lambda>p. p \<in> set [''out.jpg'', ''out_1.jpg'']"]
    by simp
qed

end
